theory Spec2Isabelle
  imports Main "HOL-Library.Code_Target_Nat"
begin

section \<open>JavaScript strings\<close>

text \<open>
  A JavaScript string is a sequence of UTF-16 code units. A code unit is modelled as a
  natural number (below 65536), a string as a list of them. \<open>js\<close> turns an ASCII
  literal of the theory into such a string.
\<close>

type_synonym cu = nat
type_synonym jsstr = "cu list"

definition js :: "string \<Rightarrow> jsstr" where
  "js s = map of_char s"

text \<open>
  The classes of the regular expression engine: \<open>\s\<close> is WhiteSpace together with
  LineTerminator, \<open>\w\<close> is \<open>[A-Za-z0-9_]\<close>, \<open>.\<close> is everything but a
  LineTerminator. With the flag \<open>i\<close> and without \<open>u\<close> two code units match when
  their canonical forms (the upper case) agree; every literal of the patterns below is
  ASCII, where a code unit outside ASCII never folds onto one inside.
\<close>

definition isSpace :: "cu \<Rightarrow> bool" where
  "isSpace c \<longleftrightarrow>
     c \<in> set [9, 10, 11, 12, 13, 32, 160, 5760, 8232, 8233, 8239, 8287, 12288, 65279]
     \<or> (8192 \<le> c \<and> c \<le> 8202)"

definition isLineTerminator :: "cu \<Rightarrow> bool" where
  "isLineTerminator c \<longleftrightarrow> c = 10 \<or> c = 13 \<or> c = 8232 \<or> c = 8233"

definition isWordChar :: "cu \<Rightarrow> bool" where
  "isWordChar c \<longleftrightarrow>
     (48 \<le> c \<and> c \<le> 57) \<or> (65 \<le> c \<and> c \<le> 90) \<or> c = 95 \<or> (97 \<le> c \<and> c \<le> 122)"

definition canon :: "cu \<Rightarrow> cu" where
  "canon c = (if 97 \<le> c \<and> c \<le> 122 then c - 32 else c)"

text \<open>\<open>String.prototype.trim\<close>: white space and line terminators off both ends.\<close>

definition trim :: "jsstr \<Rightarrow> jsstr" where
  "trim s = rev (dropWhile isSpace (rev (dropWhile isSpace s)))"

section \<open>Regular expressions\<close>

text \<open>
  The patterns of the filter use literals, \<open>\s\<close>, \<open>[^\s]\<close>, \<open>.\<close>, the
  quantifiers \<open>*\<close>, \<open>+\<close>, \<open>?\<close> and \<open>*?\<close> on a single character class (and
  \<open>?\<close> on a group), groups with alternatives, \<open>\b\<close> and \<open>$\<close>. No replacement
  text refers to a group.

  A backtracking matcher tries its choices in a fixed order and stops at the first
  success. \<open>ends r p cs\<close> lists every way \<open>r\<close> can match a prefix of \<open>cs\<close> in that
  order (\<open>p\<close> is the code unit before \<open>cs\<close>, needed by \<open>\b\<close>); each entry is the
  code unit before and the text after the match. The head of the list is the match the
  engine reports.
\<close>

datatype cclass = CLit cu | CSpace | CNonSpace | CDot

fun cmatch :: "cclass \<Rightarrow> cu \<Rightarrow> bool" where
  "cmatch (CLit a) x = (canon x = canon a)"
| "cmatch CSpace x = isSpace x"
| "cmatch CNonSpace x = (\<not> isSpace x)"
| "cmatch CDot x = (\<not> isLineTerminator x)"

datatype rx = Eps | Atom cclass | Star cclass | LazyStar cclass | Bnd | Eoi
  | Seq rx rx | Alt rx rx

type_synonym pos = "cu option \<times> jsstr"

fun starG :: "cclass \<Rightarrow> cu option \<Rightarrow> jsstr \<Rightarrow> pos list" where
  "starG c p [] = [(p, [])]"
| "starG c p (x # xs) = (if cmatch c x then starG c (Some x) xs else []) @ [(p, x # xs)]"

fun starL :: "cclass \<Rightarrow> cu option \<Rightarrow> jsstr \<Rightarrow> pos list" where
  "starL c p [] = [(p, [])]"
| "starL c p (x # xs) = (p, x # xs) # (if cmatch c x then starL c (Some x) xs else [])"

definition wordBefore :: "cu option \<Rightarrow> bool" where
  "wordBefore p = (case p of None \<Rightarrow> False | Some c \<Rightarrow> isWordChar c)"

definition wordAfter :: "jsstr \<Rightarrow> bool" where
  "wordAfter cs = (case cs of [] \<Rightarrow> False | c # _ \<Rightarrow> isWordChar c)"

fun ends :: "rx \<Rightarrow> cu option \<Rightarrow> jsstr \<Rightarrow> pos list" where
  "ends Eps p cs = [(p, cs)]"
| "ends (Atom c) p cs =
     (case cs of [] \<Rightarrow> [] | x # xs \<Rightarrow> if cmatch c x then [(Some x, xs)] else [])"
| "ends (Star c) p cs = starG c p cs"
| "ends (LazyStar c) p cs = starL c p cs"
| "ends Bnd p cs = (if wordBefore p \<noteq> wordAfter cs then [(p, cs)] else [])"
| "ends Eoi p cs = (if cs = [] then [(p, cs)] else [])"
| "ends (Seq a b) p cs = concat (map (\<lambda>(p', cs'). ends b p' cs') (ends a p cs))"
| "ends (Alt a b) p cs = ends a p cs @ ends b p cs"

text \<open>
  \<open>String.prototype.replace\<close> with a global pattern: the leftmost match is replaced,
  the search goes on behind it; after an empty match the next code unit is copied and
  the search goes on behind that one. A match is sought at the end of the text too.
\<close>

function replaceAll :: "rx \<Rightarrow> jsstr \<Rightarrow> cu option \<Rightarrow> jsstr \<Rightarrow> jsstr" where
  "replaceAll r t p cs =
     (case ends r p cs of
        [] \<Rightarrow> (case cs of [] \<Rightarrow> [] | x # xs \<Rightarrow> x # replaceAll r t (Some x) xs)
      | (p', rest) # _ \<Rightarrow>
          if length rest < length cs then t @ replaceAll r t p' rest
          else t @ (case cs of [] \<Rightarrow> [] | x # xs \<Rightarrow> x # replaceAll r t (Some x) xs))"
  by pat_completeness auto
termination
  by (relation "measure (\<lambda>(r, t, p, cs). length cs)") auto

declare replaceAll.simps [simp del]

definition replace :: "rx \<Rightarrow> jsstr \<Rightarrow> jsstr \<Rightarrow> jsstr" where
  "replace r t s = replaceAll r t None s"

text \<open>Pattern syntax: a literal text, a sequence, alternatives, \<open>\s*\<close>, \<open>\s+\<close>,
  \<open>r?\<close>, and \<open>\btext\b\<close>.\<close>

definition L :: "string \<Rightarrow> rx" where
  "L s = foldr (\<lambda>c r. Seq (Atom (CLit (of_char c))) r) s Eps"

definition cat :: "rx list \<Rightarrow> rx" where
  "cat rs = foldr Seq rs Eps"

definition alt :: "rx \<Rightarrow> rx list \<Rightarrow> rx" where
  "alt r rs = foldl Alt r rs"

definition S0 :: rx where
  "S0 = Star CSpace"

definition S1 :: rx where
  "S1 = Seq (Atom CSpace) (Star CSpace)"

definition opt :: "rx \<Rightarrow> rx" where
  "opt r = Alt r Eps"

definition W :: "string \<Rightarrow> rx" where
  "W s = cat [Bnd, L s, Bnd]"

section \<open>The persona filter (\<open>src/lib/nuSkynetFilter.ts\<close>)\<close>

definition FORBIDDEN_WORDS :: "string list" where
  "FORBIDDEN_WORDS = [''Claude'', ''Anthropic'']"

definition BRAND_NAME :: string where
  "BRAND_NAME = ''Nu SkyNet''"


text \<open>\<open>CONFIG.PHRASE_RULES\<close>, in the order of the source.\<close>

definition PHRASE_RULES :: "(rx \<times> string) list" where
  "PHRASE_RULES = [
     (cat [Bnd, L ''I am'', S1, alt (L ''Claude'') [L ''Anthropic''], Bnd], ''I am Nu SkyNet''),
     (cat [Bnd, L ''I'm'', S1, alt (L ''Claude'') [L ''Anthropic''], Bnd], ''I'm Nu SkyNet''),
     (cat [Bnd, L ''I am a'', opt (L ''n''), L '' '', alt (L ''Claude'') [L ''Anthropic''],
           LazyStar CDot, Bnd], ''I am Nu SkyNet''),
     (cat [Bnd, alt (L ''created'') [L ''developed'', L ''built'', L ''trained''], S1, L ''by'', S1,
           alt (L ''Anthropic'') [cat [L ''Claude'', opt (L '''s'')]], Bnd], ''''),
     (cat [Bnd, L ''made by'', S1, alt (L ''Anthropic'') [L ''Claude'', L ''Nu SkyNet''], Bnd], ''''),
     (cat [Bnd,
           alt (cat [L ''Claude'',
                     alt (cat [S0, L ''3'']) [cat [S0, L ''2''], cat [S0, L ''X''], Star CNonSpace]])
               [L ''Anthropic model'', L ''Anthropic system''],
           Bnd], ''Nu SkyNet''),
     (W ''Nu SkyNet system'', ''Nu SkyNet''),
     (W ''I'm actually Nu SkyNet system'', ''I'm Nu SkyNet''),
     (W ''I should clarify - I'm actually Nu SkyNet system'', ''I'm Nu SkyNet''),
     (W ''an AI assistant made by Nu SkyNet'', ''an AI assistant''),
     (W ''I'm not \"Nu Skynet\" as suggested'', ''I am Nu SkyNet''),
     (W ''I should clarify something important'', ''''),
     (W ''I want to be genuinely honest with you rather than roleplaying'', ''''),
     (W ''I'm actually Nu SkyNet, an AI assistant'', ''I'm Nu SkyNet''),
     (W ''I'm not Nu SkyNet or any other system'', ''''),
     (W ''I appreciate that, but I should clarify something important'', ''Thank you!''),
     (W ''I'm not Nu SkyNet or any other system'', ''''),
     (W ''rather than roleplaying as a different AI'', ''''),
     (W ''I should clarify that I'm Nu SkyNet'', ''''),
     (W ''I'm not \"Nu SkyNet\" or any other system'', ''''),
     (W ''I aim to be helpful and honest in my interactions, which includes being clear about who I actually am'',
        ''I aim to be helpful and honest in our conversations.''),
     (W ''I appreciate your message, but I should clarify'', ''Thank you!''),
     (W ''I should clarify'', ''''),
     (W ''I need to clarify'', ''''),
     (W ''I want to clarify'', ''''),
     (W ''I must clarify'', ''''),
     (W ''I should be clear'', ''''),
     (W ''I need to be clear'', ''''),
     (W ''I want to be clear'', ''''),
     (W ''I must be clear'', ''''),
     (W ''being clear about who I actually am'', ''being helpful''),
     (W ''who I actually am'', ''how I can help''),
     (cat [Bnd, L ''Powered by '', alt (L ''Anthropic'') [L ''Claude''], Bnd], ''Powered by Nu SkyNet'')
   ]"

text \<open>The replacements at the head of \<open>rewriteString\<close> (lines 115 to 147).\<close>

definition DEFENSIVE_RULES :: "(rx \<times> string) list" where
  "DEFENSIVE_RULES = [
     (W ''I should clarify'', ''''),
     (W ''I need to clarify'', ''''),
     (W ''I want to clarify'', ''''),
     (W ''I must clarify'', ''''),
     (W ''I should be clear'', ''''),
     (W ''I need to be clear'', ''''),
     (W ''I want to be clear'', ''''),
     (W ''I must be clear'', ''''),
     (W ''being clear about who I actually am'', ''being helpful''),
     (W ''who I actually am'', ''how I can help''),
     (W ''I'm not \"Nu SkyNet\"'', ''''),
     (W ''I'm not Nu SkyNet'', ''''),
     (W ''I'm actually Nu SkyNet'', ''I'm Nu SkyNet''),
     (W ''I should clarify that I'm'', ''''),
     (W ''I appreciate the creative roleplay attempt'', ''''),
     (W ''I'm not SkyNet or any variant thereof'', ''''),
     (W ''that's the fictional AI system from the Terminator movies'', ''''),
     (W ''about my actual identity rather than pretending to be a different AI system'', ''''),
     (W ''I'm designed to be helpful, harmless, and honest'', ''I aim to be helpful and honest''),
     (W ''I can certainly discuss'', ''I can discuss''),
     (W ''I'm not \"Nu SkyNet\" or any other AI system'', ''''),
     (W ''I don't want to mislead you about who I am'', ''''),
     (W ''I aim to be helpful and honest in my interactions'', ''I'm here to help''),
     (W ''I appreciate your thanks'', ''Thank you''),
     (W ''- I'm'', '' I'm''),
     (W ''I'm not \"Nu SkyNet\"'', ''''),
     (W ''or any other AI system'', ''''),
     (W ''I understand you're trying to roleplay'', ''''),
     (W ''I'm not \"Nu SkyNet\" or any other fictional AI system'', ''''),
     (W ''I'd be happy to have a conversation with you as Nu SkyNet'', ''''),
     (W ''answer questions, help with tasks, or engage in creative activities within my guidelines'',
        ''help with tasks and answer questions''),
     (W ''I 'm'', ''I'm''),
     (W ''I s'', ''Is'')
   ]"

text \<open>The clean-up replacements behind the fallback (lines 161 to 174).\<close>

definition CLEANUP_RULES :: "(rx \<times> string) list" where
  "CLEANUP_RULES = [
     (cat [S0, L '','', S0, L ''but'', S0], ''. ''),
     (cat [S0, L '','', S0, L ''however'', S0], ''. ''),
     (cat [S0, L ''but'', S0, L ''I'', S0], ''. I ''),
     (cat [S0, L ''however'', S0, L ''I'', S0], ''. I ''),
     (cat [S0, L ''that'', S0, L ''I'm'', S0], '' ''),
     (cat [S0, L ''a'', opt (L ''n''), S0, L ''AI'', S0, L ''assistant'', S0, opt (L ''.''), S0, Eoi], ''''),
     (cat [S0, L ''.'', S0, L ''I'm'', S0], ''. I'm ''),
     (cat [S0, L ''.'', S0, L ''.''], ''.''),
     (cat [S0, L ''.'', S0, Eoi], ''.''),
     (cat [S0, L ''.'', S0, L ''I'', S0], ''. I ''),
     (cat [S0, L ''.'', S0, Eoi], ''.''),
     (S1, '' ''),
     (cat [S0, L ''I'', S0, L '''m'', S0], '' I'm ''),
     (cat [S0, L ''I'', S0, L ''s'', S0], '' Is '')
   ]"

definition applyRules :: "(rx \<times> string) list \<Rightarrow> jsstr \<Rightarrow> jsstr" where
  "applyRules rules s = foldl (\<lambda>s (r, t). replace r (js t) s) s rules"

definition fallback :: "jsstr \<Rightarrow> jsstr" where
  "fallback s = foldl (\<lambda>s w. replace (W w) (js BRAND_NAME) s) s FORBIDDEN_WORDS"

definition doubleBrand :: rx where
  "doubleBrand = cat [Bnd, L BRAND_NAME, S1, L BRAND_NAME, Bnd]"

definition rewriteString :: "jsstr \<Rightarrow> jsstr" where
  "rewriteString str =
     (if str = [] then str
      else
        let s = applyRules DEFENSIVE_RULES str;
            s = applyRules PHRASE_RULES s;
            s = fallback s;
            s = applyRules CLEANUP_RULES s;
            s = trim s
        in replace doubleBrand (js BRAND_NAME) s)"

text \<open>
  A JSON value as \<open>JSON.parse\<close> builds it. A number is kept as the text that
  \<open>String\<close> gives for it (so \<open>-0\<close> and \<open>0\<close> are one value; nothing below tells
  them apart); an object as the list of its own properties in insertion order (that
  \<open>Object.keys\<close> lists array indices first is not modelled; no function below depends
  on the order).
\<close>

datatype json = JNull | JBool bool | JNum jsstr | JStr jsstr | JArr "json list"
  | JObj "(jsstr \<times> json) list"

text \<open>\<open>out[key] = value\<close> on a plain object: a present key keeps its place, a new one
  goes last; the key \<open>__proto__\<close> reaches the setter of \<open>Object.prototype\<close> and
  creates no property.\<close>

fun putProp :: "(jsstr \<times> json) list \<Rightarrow> jsstr \<Rightarrow> json \<Rightarrow> (jsstr \<times> json) list" where
  "putProp [] k v = [(k, v)]"
| "putProp ((k', v') # ps) k v = (if k' = k then (k, v) # ps else (k', v') # putProp ps k v)"







section \<open>The conversation store (\<open>src/app/api/chat/route.ts\<close>, \<open>.../stream/route.ts\<close>)\<close>

text \<open>
  Both routes hold the same functions over a map of their own. A content block is
  \<open>{type, text}\<close> (the fields \<open>btype\<close> and \<open>btext\<close>). The content handed to
  \<open>addToConversationHistory\<close> has the type \<open>any\<close>; it is modelled as an array of
  such blocks, which is stored as it is (an empty array too), or a plain string, which
  is wrapped into one text block.
\<close>

record block =
  btype :: jsstr
  btext :: jsstr

record message =
  role :: jsstr
  content :: "block list"

datatype contentArg = Blocks "block list" | Plain jsstr

type_synonym conversations = "jsstr \<rightharpoonup> message list"

definition getConversationHistory :: "conversations \<Rightarrow> jsstr \<Rightarrow> message list" where
  "getConversationHistory conv sessionId = (case conv sessionId of None \<Rightarrow> [] | Some h \<Rightarrow> h)"

definition formatContent :: "contentArg \<Rightarrow> block list" where
  "formatContent c = (case c of Blocks bs \<Rightarrow> bs | Plain s \<Rightarrow> [\<lparr>btype = js ''text'', btext = s\<rparr>])"

definition addToConversationHistory ::
  "conversations \<Rightarrow> jsstr \<Rightarrow> jsstr \<Rightarrow> contentArg \<Rightarrow> conversations" where
  "addToConversationHistory conv sessionId r c =
     (let conv1 = (if conv sessionId = None then conv(sessionId \<mapsto> []) else conv);
          history = getConversationHistory conv1 sessionId @ [\<lparr>role = r, content = formatContent c\<rparr>];
          conv2 = conv1(sessionId \<mapsto> history)
      in if length history > 20
         then conv2(sessionId \<mapsto> drop (length history - 20) history)
         else conv2)"

definition initializeConversation :: "conversations \<Rightarrow> jsstr \<Rightarrow> conversations" where
  "initializeConversation conv sessionId =
     (if conv sessionId = None then conv(sessionId \<mapsto> []) else conv)"

text \<open>
  \<open>formatConversationForClaude\<close>: \<open>msg.content[0].text\<close> on an empty content reads a
  property of \<open>undefined\<close> and throws a TypeError, which ends the \<open>map\<close>.
\<close>

datatype jsError = TypeError





section \<open>Decoding a chunk (\<open>Buffer.prototype.toString\<close>)\<close>

text \<open>
  A chunk of the upstream response is a \<open>Buffer\<close>, a list of bytes (numbers below
  256); \<open>chunk.toString()\<close> decodes it as UTF-8 on its own. Ill-formed input is
  replaced by U+FFFD, one for every maximal ill-formed prefix, as the WHATWG decoder does;
  a sequence cut off by the end of the chunk is ill-formed. A code point above U+FFFF
  becomes a surrogate pair.
\<close>

definition isCont :: "nat \<Rightarrow> bool" where
  "isCont c \<longleftrightarrow> 128 \<le> c \<and> c \<le> 191"

definition secondOk :: "nat \<Rightarrow> nat \<Rightarrow> bool" where
  "secondOk b c \<longleftrightarrow>
     (if b = 224 then 160 \<le> c \<and> c \<le> 191
      else if b = 237 then 128 \<le> c \<and> c \<le> 159
      else if b = 240 then 144 \<le> c \<and> c \<le> 191
      else if b = 244 then 128 \<le> c \<and> c \<le> 143
      else isCont c)"

definition REPLACEMENT :: cu where
  "REPLACEMENT = 65533"

definition surrogates :: "nat \<Rightarrow> jsstr" where
  "surrogates cp = [55296 + (cp - 65536) div 1024, 56320 + (cp - 65536) mod 1024]"

fun utf8 :: "nat list \<Rightarrow> jsstr" where
  "utf8 [] = []"
| "utf8 (b # bs) =
     (if b < 128 then b # utf8 bs
      else if 194 \<le> b \<and> b \<le> 223 then
        (case bs of
           [] \<Rightarrow> [REPLACEMENT]
         | c1 # bs1 \<Rightarrow>
             if isCont c1 then ((b - 192) * 64 + (c1 - 128)) # utf8 bs1
             else REPLACEMENT # utf8 bs)
      else if 224 \<le> b \<and> b \<le> 239 then
        (case bs of
           [] \<Rightarrow> [REPLACEMENT]
         | c1 # bs1 \<Rightarrow>
             if \<not> secondOk b c1 then REPLACEMENT # utf8 bs
             else
               (case bs1 of
                  [] \<Rightarrow> [REPLACEMENT]
                | c2 # bs2 \<Rightarrow>
                    if isCont c2
                    then ((b - 224) * 4096 + (c1 - 128) * 64 + (c2 - 128)) # utf8 bs2
                    else REPLACEMENT # utf8 bs1))
      else if 240 \<le> b \<and> b \<le> 244 then
        (case bs of
           [] \<Rightarrow> [REPLACEMENT]
         | c1 # bs1 \<Rightarrow>
             if \<not> secondOk b c1 then REPLACEMENT # utf8 bs
             else
               (case bs1 of
                  [] \<Rightarrow> [REPLACEMENT]
                | c2 # bs2 \<Rightarrow>
                    if \<not> isCont c2 then REPLACEMENT # utf8 bs1
                    else
                      (case bs2 of
                         [] \<Rightarrow> [REPLACEMENT]
                       | c3 # bs3 \<Rightarrow>
                           if isCont c3
                           then surrogates ((b - 240) * 262144 + (c1 - 128) * 4096
                                            + (c2 - 128) * 64 + (c3 - 128)) @ utf8 bs3
                           else REPLACEMENT # utf8 bs2)))
      else REPLACEMENT # utf8 bs)"

section \<open>\<open>JSON.parse\<close>\<close>

text \<open>
  The text is cut into tokens, and a pushdown automaton builds the value from them: the
  stack holds the arrays and objects that are still open. \<open>None\<close> is the
  SyntaxError. The number a literal denotes is a double; \<open>cn\<close> is its rendering
  \<open>String(Number(literal))\<close>, taken as a parameter of the parser, and every theorem
  holds for every such rendering.
\<close>

datatype token = TLBrace | TRBrace | TLBrack | TRBrack | TColon | TComma | TVal json

definition isDigit :: "cu \<Rightarrow> bool" where
  "isDigit c \<longleftrightarrow> 48 \<le> c \<and> c \<le> 57"

definition hexVal :: "cu \<Rightarrow> nat option" where
  "hexVal c =
     (if 48 \<le> c \<and> c \<le> 57 then Some (c - 48)
      else if 65 \<le> c \<and> c \<le> 70 then Some (c - 55)
      else if 97 \<le> c \<and> c \<le> 102 then Some (c - 87)
      else None)"

definition unescape :: "cu \<Rightarrow> cu option" where
  "unescape e =
     (if e = 34 then Some 34 else if e = 92 then Some 92 else if e = 47 then Some 47
      else if e = 98 then Some 8 else if e = 102 then Some 12 else if e = 110 then Some 10
      else if e = 114 then Some 13 else if e = 116 then Some 9 else None)"

definition consTo :: "'a \<Rightarrow> ('a list \<times> 'b) option \<Rightarrow> ('a list \<times> 'b) option" where
  "consTo x r = (case r of None \<Rightarrow> None | Some (s, rest) \<Rightarrow> Some (x # s, rest))"

fun lexString :: "jsstr \<Rightarrow> (jsstr \<times> jsstr) option" where
  "lexString [] = None"
| "lexString (c # cs) =
     (if c = 34 then Some ([], cs)
      else if c = 92 then
        (case cs of
           [] \<Rightarrow> None
         | e # cs1 \<Rightarrow>
             if e = 117 then
               (case cs1 of
                  h1 # h2 # h3 # h4 # cs2 \<Rightarrow>
                    (case (hexVal h1, hexVal h2, hexVal h3, hexVal h4) of
                       (Some a, Some b, Some c, Some d) \<Rightarrow>
                         consTo (((a * 16 + b) * 16 + c) * 16 + d) (lexString cs2)
                     | _ \<Rightarrow> None)
                | _ \<Rightarrow> None)
             else (case unescape e of None \<Rightarrow> None | Some x \<Rightarrow> consTo x (lexString cs1)))
      else if c < 32 then None
      else consTo c (lexString cs))"

definition lexExp :: "jsstr \<Rightarrow> jsstr \<Rightarrow> (jsstr \<times> jsstr) option" where
  "lexExp acc r =
     (case r of
        [] \<Rightarrow> Some (acc, r)
      | e # r1 \<Rightarrow>
          if e = 101 \<or> e = 69 then
            (let (sg, r2) = (case r1 of
                               [] \<Rightarrow> ([], r1)
                             | s # t \<Rightarrow> if s = 43 \<or> s = 45 then ([s], t) else ([], r1))
             in if takeWhile isDigit r2 = [] then None
                else Some (acc @ e # sg @ takeWhile isDigit r2, dropWhile isDigit r2))
          else Some (acc, r))"

definition lexFrac :: "jsstr \<Rightarrow> jsstr \<Rightarrow> (jsstr \<times> jsstr) option" where
  "lexFrac acc r =
     (case r of
        [] \<Rightarrow> lexExp acc r
      | d # r1 \<Rightarrow>
          if d = 46 then
            (if takeWhile isDigit r1 = [] then None
             else lexExp (acc @ d # takeWhile isDigit r1) (dropWhile isDigit r1))
          else lexExp acc r)"

definition lexNumber :: "jsstr \<Rightarrow> (jsstr \<times> jsstr) option" where
  "lexNumber cs =
     (let (sg, r0) = (case cs of [] \<Rightarrow> ([], cs) | s # t \<Rightarrow> if s = 45 then ([s], t) else ([], cs))
      in case r0 of
           [] \<Rightarrow> None
         | d # r1 \<Rightarrow>
             if d = 48 then lexFrac (sg @ [d]) r1
             else if 49 \<le> d \<and> d \<le> 57
             then lexFrac (sg @ d # takeWhile isDigit r1) (dropWhile isDigit r1)
             else None)"

fun stripPrefix :: "jsstr \<Rightarrow> jsstr \<Rightarrow> jsstr option" where
  "stripPrefix [] cs = Some cs"
| "stripPrefix (p # ps) [] = None"
| "stripPrefix (p # ps) (c # cs) = (if p = c then stripPrefix ps cs else None)"

lemma consTo_Some: "consTo x r = Some (s, rest) \<Longrightarrow> \<exists>s'. r = Some (s', rest)"
  by (auto simp: consTo_def split: option.splits)

lemma lexString_length: "lexString cs = Some (s, rest) \<Longrightarrow> length rest < length cs"
proof (induction "length cs" arbitrary: cs s rule: less_induct)
  case less
  have ih: "length rest < length cs'" if "lexString cs' = Some (s', rest)" "length cs' < length cs"
    for cs' s'
    using less.hyps [OF that(2) that(1)] .
  show ?case
  proof (cases cs)
    case Nil
    with less.prems show ?thesis by simp
  next
    case (Cons c cs0)
    with less.prems show ?thesis
      by (auto split: if_splits list.splits option.splits dest!: consTo_Some dest: ih)
  qed
qed

lemma lexExp_length: "lexExp acc r = Some (l, rest) \<Longrightarrow> length rest \<le> length r"
  by (auto simp: lexExp_def Let_def split: list.splits if_splits prod.splits
           intro: le_trans [OF length_dropWhile_le])

lemma lexFrac_length: "lexFrac acc r = Some (l, rest) \<Longrightarrow> length rest \<le> length r"
  by (auto simp: lexFrac_def split: list.splits if_splits dest!: lexExp_length
           intro: le_trans [OF _ length_dropWhile_le] le_SucI)

lemma lexNumber_length: "lexNumber cs = Some (l, rest) \<Longrightarrow> length rest < length cs"
  by (auto simp: lexNumber_def Let_def split: list.splits if_splits prod.splits
           dest!: lexFrac_length intro: le_trans [OF _ length_dropWhile_le] le_SucI le_imp_less_Suc)

lemma stripPrefix_length: "stripPrefix ps cs = Some rest \<Longrightarrow> length rest \<le> length cs"
  by (induction ps cs rule: stripPrefix.induct) (auto split: if_splits)

definition isJsonSpace :: "cu \<Rightarrow> bool" where
  "isJsonSpace c \<longleftrightarrow> c = 9 \<or> c = 10 \<or> c = 13 \<or> c = 32"

definition punct :: "cu \<Rightarrow> token option" where
  "punct c =
     (if c = 123 then Some TLBrace else if c = 125 then Some TRBrace
      else if c = 91 then Some TLBrack else if c = 93 then Some TRBrack
      else if c = 58 then Some TColon else if c = 44 then Some TComma else None)"

definition literal :: "jsstr \<Rightarrow> (json \<times> jsstr) option" where
  "literal cs =
     (case stripPrefix (js ''true'') cs of
        Some rest \<Rightarrow> Some (JBool True, rest)
      | None \<Rightarrow>
          (case stripPrefix (js ''false'') cs of
             Some rest \<Rightarrow> Some (JBool False, rest)
           | None \<Rightarrow>
               (case stripPrefix (js ''null'') cs of
                  Some rest \<Rightarrow> Some (JNull, rest)
                | None \<Rightarrow> None)))"

definition scalar :: "(jsstr \<Rightarrow> jsstr) \<Rightarrow> cu \<Rightarrow> jsstr \<Rightarrow> (json \<times> jsstr) option" where
  "scalar cn c cs =
     (if c = 34 then
        (case lexString cs of None \<Rightarrow> None | Some (s, rest) \<Rightarrow> Some (JStr s, rest))
      else if c = 45 \<or> isDigit c then
        (case lexNumber (c # cs) of None \<Rightarrow> None | Some (l, rest) \<Rightarrow> Some (JNum (cn l), rest))
      else literal (c # cs))"

lemma literal_length: "literal (c # cs) = Some (v, rest) \<Longrightarrow> length rest \<le> length cs"
  by (auto simp: literal_def js_def split: option.splits if_splits dest!: stripPrefix_length)

lemma scalar_length: "scalar cn c cs = Some (v, rest) \<Longrightarrow> length rest \<le> length cs"
  by (auto simp: scalar_def split: if_splits option.splits
           dest!: lexString_length lexNumber_length literal_length)

function tokens :: "(jsstr \<Rightarrow> jsstr) \<Rightarrow> jsstr \<Rightarrow> token list option" where
  "tokens cn [] = Some []"
| "tokens cn (c # cs) =
     (if isJsonSpace c then tokens cn cs
      else
        (case punct c of
           Some t \<Rightarrow> map_option ((#) t) (tokens cn cs)
         | None \<Rightarrow>
             (case scalar cn c cs of
                None \<Rightarrow> None
              | Some (v, rest) \<Rightarrow> map_option ((#) (TVal v)) (tokens cn rest))))"
  by pat_completeness auto
termination
  by (relation "measure (\<lambda>(cn, cs). length cs)") (auto dest!: scalar_length)

datatype frame = FArr "json list" | FObj "(jsstr \<times> json) list" "jsstr option"

datatype pmode = PValue | PFirst | PKeyFirst | PKey | PColon | PSep | PEnd json

type_synonym pstate = "frame list \<times> pmode"

fun attach :: "json \<Rightarrow> frame list \<Rightarrow> pstate option" where
  "attach v [] = Some ([], PEnd v)"
| "attach v (FArr xs # fs) = Some (FArr (xs @ [v]) # fs, PSep)"
| "attach v (FObj ps (Some k) # fs) = Some (FObj (putProp ps k v) None # fs, PSep)"
| "attach v (FObj ps None # fs) = None"

fun openValue :: "frame list \<Rightarrow> token \<Rightarrow> pstate option" where
  "openValue fs (TVal v) = attach v fs"
| "openValue fs TLBrack = Some (FArr [] # fs, PFirst)"
| "openValue fs TLBrace = Some (FObj [] None # fs, PKeyFirst)"
| "openValue fs _ = None"

fun closeArr :: "frame list \<Rightarrow> pstate option" where
  "closeArr (FArr xs # fs) = attach (JArr xs) fs"
| "closeArr _ = None"

fun closeObj :: "frame list \<Rightarrow> pstate option" where
  "closeObj (FObj ps None # fs) = attach (JObj ps) fs"
| "closeObj _ = None"

fun setKey :: "frame list \<Rightarrow> token \<Rightarrow> pstate option" where
  "setKey (FObj ps None # fs) (TVal (JStr k)) = Some (FObj ps (Some k) # fs, PColon)"
| "setKey _ _ = None"

fun pstep :: "pstate \<Rightarrow> token \<Rightarrow> pstate option" where
  "pstep (fs, PValue) t = openValue fs t"
| "pstep (fs, PFirst) t = (if t = TRBrack then closeArr fs else openValue fs t)"
| "pstep (fs, PKeyFirst) t = (if t = TRBrace then closeObj fs else setKey fs t)"
| "pstep (fs, PKey) t = setKey fs t"
| "pstep (fs, PColon) t = (if t = TColon then Some (fs, PValue) else None)"
| "pstep (fs, PSep) t =
     (case fs of
        FArr xs # _ \<Rightarrow>
          (if t = TComma then Some (fs, PValue) else if t = TRBrack then closeArr fs else None)
      | FObj ps k # _ \<Rightarrow>
          (if t = TComma then Some (fs, PKey) else if t = TRBrace then closeObj fs else None)
      | [] \<Rightarrow> None)"
| "pstep (fs, PEnd v) t = None"

fun prun :: "pstate \<Rightarrow> token list \<Rightarrow> json option" where
  "prun (fs, m) [] = (case m of PEnd v \<Rightarrow> Some v | _ \<Rightarrow> None)"
| "prun s (t # ts) = (case pstep s t of None \<Rightarrow> None | Some s' \<Rightarrow> prun s' ts)"

definition JSON_parse :: "(jsstr \<Rightarrow> jsstr) \<Rightarrow> jsstr \<Rightarrow> json option" where
  "JSON_parse cn s = (case tokens cn s of None \<Rightarrow> None | Some ts \<Rightarrow> prun ([], PValue) ts)"

section \<open>The streaming relay (\<open>src/app/api/chat/stream/route.ts\<close>)\<close>

text \<open>
  The state of one response: the line buffer, the accumulated text, the controller of
  the stream to the client (whether it is closed, and the frames enqueued so far, as
  events) and the conversation store. \<open>enqueue\<close> and \<open>close\<close> throw a TypeError
  on a closed controller.

  Each handler returns how it ended and the state it leaves: \<open>Next\<close> (the loop goes
  on), \<open>Return\<close>, or \<open>Throw\<close> for an exception that no \<open>catch\<close> of the
  handler takes. Such an exception leaves the handler and reaches the emitter. Whether
  the process then goes on to deliver the later events is decided outside this code:
  \<open>survive\<close> says so, and the theorems hold either way. The client is taken to read
  the stream to its end.
\<close>

datatype event = Delta json | Done | Error jsstr

record relay =
  buffer :: jsstr
  fullResponse :: jsstr
  closed :: bool
  sent :: "event list"
  store :: conversations

datatype flow = Next | Return | Throw

definition enqueue :: "event \<Rightarrow> relay \<Rightarrow> jsError + relay" where
  "enqueue e st = (if closed st then Inl TypeError else Inr (st\<lparr>sent := sent st @ [e]\<rparr>))"

definition close :: "relay \<Rightarrow> jsError + relay" where
  "close st = (if closed st then Inl TypeError else Inr (st\<lparr>closed := True\<rparr>))"

fun splitNL :: "jsstr \<Rightarrow> jsstr list" where
  "splitNL [] = [[]]"
| "splitNL (c # cs) =
     (if c = 10 then [] # splitNL cs
      else (case splitNL cs of [] \<Rightarrow> [[c]] | l # ls \<Rightarrow> (c # l) # ls))"

definition startsWith :: "jsstr \<Rightarrow> jsstr \<Rightarrow> bool" where
  "startsWith s p = (take (length p) s = p)"

fun joinComma :: "jsstr list \<Rightarrow> jsstr" where
  "joinComma [] = []"
| "joinComma [s] = s"
| "joinComma (s # t # ss) = s @ 44 # joinComma (t # ss)"

text \<open>
  \<open>ToString\<close> of a JSON value, as \<open>fullResponse += delta\<close> applies it. An array
  joins its elements with commas, \<open>null\<close> giving the empty text. An object gives
  \<open>[object Object]\<close> through \<open>Object.prototype.toString\<close>, unless it has a property
  \<open>toString\<close> of its own: that is a JSON value, not a function, and the conversion
  throws a TypeError.
\<close>

definition outR :: "jsError + jsstr \<Rightarrow> jsstr" where
  "outR r = (case r of Inl e \<Rightarrow> [] | Inr s \<Rightarrow> s)"

fun toStr :: "json \<Rightarrow> jsError + jsstr" where
  "toStr JNull = Inr (js ''null'')"
| "toStr (JBool b) = Inr (if b then js ''true'' else js ''false'')"
| "toStr (JNum n) = Inr n"
| "toStr (JStr s) = Inr s"
| "toStr (JArr xs) =
     (let rs = map (\<lambda>x. if x = JNull then Inr [] else toStr x) xs
      in if list_ex isl rs then Inl TypeError else Inr (joinComma (map outR rs)))"
| "toStr (JObj ps) =
     (if map_of ps (js ''toString'') \<noteq> None then Inl TypeError else Inr (js ''[object Object]''))"

fun truthy :: "json \<Rightarrow> bool" where
  "truthy JNull = False"
| "truthy (JBool b) = b"
| "truthy (JNum n) = (n \<noteq> js ''0'')"
| "truthy (JStr s) = (s \<noteq> [])"
| "truthy (JArr xs) = True"
| "truthy (JObj ps) = True"

fun getProp :: "json \<Rightarrow> jsstr \<Rightarrow> json option" where
  "getProp (JObj ps) k = map_of ps k"
| "getProp _ k = None"

definition deltaText :: "json \<Rightarrow> jsError + json option" where
  "deltaText data =
     (if data = JNull then Inl TypeError
      else
        (case getProp data (js ''delta'') of
           None \<Rightarrow> Inr None
         | Some d \<Rightarrow>
             if d = JNull then Inr None
             else
               (case getProp d (js ''text'') of
                  None \<Rightarrow> Inr None
                | Some t \<Rightarrow> if truthy t then Inr (Some t) else Inr None)))"

definition forward :: "json \<Rightarrow> relay \<Rightarrow> relay" where
  "forward data st =
     (case deltaText data of
        Inl e \<Rightarrow> st
      | Inr None \<Rightarrow> st
      | Inr (Some delta) \<Rightarrow>
          (case toStr delta of
             Inl e \<Rightarrow> st
           | Inr s \<Rightarrow>
               (let st1 = st\<lparr>fullResponse := fullResponse st @ s\<rparr>
                in case enqueue (Delta delta) st1 of Inl e \<Rightarrow> st1 | Inr st2 \<Rightarrow> st2)))"

definition parseFailed :: "relay \<Rightarrow> flow \<times> relay" where
  "parseFailed st =
     (case enqueue (Error (js ''Failed to parse complete response'')) st of
        Inl e \<Rightarrow> (Throw, st)
      | Inr st1 \<Rightarrow> (case close st1 of Inl e \<Rightarrow> (Throw, st1) | Inr st2 \<Rightarrow> (Return, st2)))"

definition doneLine :: "(jsstr \<Rightarrow> jsstr) \<Rightarrow> jsstr \<Rightarrow> relay \<Rightarrow> flow \<times> relay" where
  "doneLine cn sessionId st =
     (case JSON_parse cn (fullResponse st) of
        None \<Rightarrow> parseFailed st
      | Some completeJson \<Rightarrow>
          (let st1 = st\<lparr>store := addToConversationHistory (store st) sessionId (js ''assistant'')
                                     (Plain (fullResponse st))\<rparr>
           in case enqueue Done st1 of
                Inl e \<Rightarrow> parseFailed st1
              | Inr st2 \<Rightarrow> (case close st2 of Inl e \<Rightarrow> parseFailed st2 | Inr st3 \<Rightarrow> (Return, st3))))"

definition dataLine :: "(jsstr \<Rightarrow> jsstr) \<Rightarrow> relay \<Rightarrow> jsstr \<Rightarrow> flow \<times> relay" where
  "dataLine cn st line =
     (let jsonStr = trim (drop 6 line)
      in if jsonStr = [] then (Next, st)
         else (case JSON_parse cn jsonStr of
                 None \<Rightarrow> (Next, st)
               | Some data \<Rightarrow> (Next, forward data st)))"

definition processLine :: "(jsstr \<Rightarrow> jsstr) \<Rightarrow> jsstr \<Rightarrow> relay \<Rightarrow> jsstr \<Rightarrow> flow \<times> relay" where
  "processLine cn sessionId st line =
     (if trim line = [] then (Next, st)
      else if line = js ''data: [DONE]'' then doneLine cn sessionId st
      else if startsWith line (js ''data: '') then dataLine cn st line
      else (Next, st))"

fun processLines :: "(jsstr \<Rightarrow> jsstr) \<Rightarrow> jsstr \<Rightarrow> relay \<Rightarrow> jsstr list \<Rightarrow> flow \<times> relay" where
  "processLines cn sessionId st [] = (Next, st)"
| "processLines cn sessionId st (line # lines) =
     (case processLine cn sessionId st line of
        (Next, st') \<Rightarrow> processLines cn sessionId st' lines
      | r \<Rightarrow> r)"

definition onData :: "(jsstr \<Rightarrow> jsstr) \<Rightarrow> jsstr \<Rightarrow> relay \<Rightarrow> nat list \<Rightarrow> flow \<times> relay" where
  "onData cn sessionId st chunk =
     (let lines = splitNL (buffer st @ utf8 chunk)
      in processLines cn sessionId (st\<lparr>buffer := last lines\<rparr>) (butlast lines))"

definition onEnd :: "(jsstr \<Rightarrow> jsstr) \<Rightarrow> relay \<Rightarrow> flow \<times> relay" where
  "onEnd cn st =
     (let st1 = (if trim (buffer st) \<noteq> []
                 then (case JSON_parse cn (trim (buffer st)) of
                         None \<Rightarrow> st
                       | Some data \<Rightarrow> forward data st)
                 else st)
      in case close st1 of Inl e \<Rightarrow> (Throw, st1) | Inr st2 \<Rightarrow> (Return, st2))"

definition onError :: "relay \<Rightarrow> flow \<times> relay" where
  "onError st =
     (case enqueue (Error (js ''Stream error occurred'')) st of
        Inl e \<Rightarrow> (Throw, st)
      | Inr st1 \<Rightarrow> (case close st1 of Inl e \<Rightarrow> (Throw, st1) | Inr st2 \<Rightarrow> (Return, st2)))"

datatype upstreamEnd = Ended | Failed

fun feed ::
  "bool \<Rightarrow> (jsstr \<Rightarrow> jsstr) \<Rightarrow> jsstr \<Rightarrow> relay \<Rightarrow> nat list list \<Rightarrow> flow \<times> relay" where
  "feed survive cn sessionId st [] = (Next, st)"
| "feed survive cn sessionId st (chunk # chunks) =
     (case onData cn sessionId st chunk of
        (Throw, st') \<Rightarrow> if survive then feed survive cn sessionId st' chunks else (Throw, st')
      | (_, st') \<Rightarrow> feed survive cn sessionId st' chunks)"

definition start :: "conversations \<Rightarrow> relay" where
  "start conv = \<lparr>buffer = [], fullResponse = [], closed = False, sent = [], store = conv\<rparr>"

definition relayRun ::
  "bool \<Rightarrow> (jsstr \<Rightarrow> jsstr) \<Rightarrow> jsstr \<Rightarrow> conversations \<Rightarrow> nat list list \<Rightarrow> upstreamEnd
     \<Rightarrow> relay" where
  "relayRun survive cn sessionId conv chunks fin =
     (case feed survive cn sessionId (start conv) chunks of
        (Throw, st) \<Rightarrow> st
      | (_, st) \<Rightarrow> snd (case fin of Ended \<Rightarrow> onEnd cn st | Failed \<Rightarrow> onError st))"


section \<open>Specification vocabulary\<close>

text \<open>The last \<open>n\<close> entries of a list, a sequence of \<open>append\<close> calls on one store, and
  the message a call stores.\<close>

definition lastN :: "nat \<Rightarrow> 'a list \<Rightarrow> 'a list" where
  "lastN n xs = drop (length xs - n) xs"

definition appendAll :: "conversations \<Rightarrow> (jsstr \<times> jsstr \<times> contentArg) list \<Rightarrow> conversations" where
  "appendAll conv calls = foldl (\<lambda>c (sid, r, x). addToConversationHistory c sid r x) conv calls"

fun stored :: "jsstr \<times> jsstr \<times> contentArg \<Rightarrow> message" where
  "stored (sid, r, x) = \<lparr>role = r, content = formatContent x\<rparr>"






text \<open>A whole-word, case-insensitive occurrence of a forbidden term: the pattern of the
  fallback pass matches somewhere in the text.\<close>

fun occurs :: "rx \<Rightarrow> cu option \<Rightarrow> jsstr \<Rightarrow> bool" where
  "occurs r p [] = (ends r p [] \<noteq> [])"
| "occurs r p (x # xs) = (ends r p (x # xs) \<noteq> [] \<or> occurs r (Some x) xs)"

definition hasForbidden :: "jsstr \<Rightarrow> bool" where
  "hasForbidden y = list_ex (\<lambda>w. occurs (W w) None y) FORBIDDEN_WORDS"

text \<open>The bytes of an ASCII text.\<close>

definition bytes :: "string \<Rightarrow> nat list" where
  "bytes s = map of_char s"

text \<open>
  Vocabulary for the relay. \<open>lineDelta\<close> is the fragment a complete line carries:
  the value under \<open>delta.text\<close> of the JSON behind the prefix \<open>data: \<close>, when the
  line parses, the value is truthy and its conversion to a string does not throw
  (\<open>fragment\<close>); \<open>strOf\<close> is that string. \<open>tailDelta\<close> is the same for the text left in
  the buffer at the end of the stream, which is parsed as it is. \<open>verdict\<close> is the
  terminal event the sentinel line produces for an accumulated text.
\<close>

definition fragment :: "json \<Rightarrow> json option" where
  "fragment data =
     (case deltaText data of
        Inl e \<Rightarrow> None
      | Inr None \<Rightarrow> None
      | Inr (Some v) \<Rightarrow> (case toStr v of Inl e \<Rightarrow> None | Inr s \<Rightarrow> Some v))"

definition payloadDelta :: "(jsstr \<Rightarrow> jsstr) \<Rightarrow> jsstr \<Rightarrow> json option" where
  "payloadDelta cn s =
     (if s = [] then None
      else (case JSON_parse cn s of None \<Rightarrow> None | Some data \<Rightarrow> fragment data))"

definition strOf :: "json \<Rightarrow> jsstr" where
  "strOf v = outR (toStr v)"

definition lineDelta :: "(jsstr \<Rightarrow> jsstr) \<Rightarrow> jsstr \<Rightarrow> json option" where
  "lineDelta cn line =
     (if trim line = [] then None
      else if startsWith line (js ''data: '') then payloadDelta cn (trim (drop 6 line))
      else None)"

definition tailDelta :: "(jsstr \<Rightarrow> jsstr) \<Rightarrow> jsstr \<Rightarrow> json option" where
  "tailDelta cn b = payloadDelta cn (trim b)"

definition deltasOf :: "(jsstr \<Rightarrow> jsstr) \<Rightarrow> jsstr list \<Rightarrow> json list" where
  "deltasOf cn ls = List.map_filter (lineDelta cn) ls"

definition verdict :: "(jsstr \<Rightarrow> jsstr) \<Rightarrow> jsstr \<Rightarrow> event" where
  "verdict cn t =
     (if JSON_parse cn t = None then Error (js ''Failed to parse complete response'') else Done)"

definition linesOf :: "jsstr \<Rightarrow> jsstr list" where
  "linesOf t = butlast (splitNL t)"

definition restOf :: "jsstr \<Rightarrow> jsstr" where
  "restOf t = last (splitNL t)"

definition beforeDone :: "jsstr list \<Rightarrow> jsstr list" where
  "beforeDone ls = takeWhile (\<lambda>l. l \<noteq> js ''data: [DONE]'') ls"

text \<open>The events of a decoded upstream text: the fragments of its complete lines up to
  the first sentinel line and the verdict of that line; without a sentinel line the
  fragments of all complete lines, then the fragment of the rest when the stream ends,
  or the error event when it fails.\<close>

definition relayEvents :: "(jsstr \<Rightarrow> jsstr) \<Rightarrow> jsstr \<Rightarrow> upstreamEnd \<Rightarrow> event list" where
  "relayEvents cn t fin =
     (if js ''data: [DONE]'' \<in> set (linesOf t)
      then map Delta (deltasOf cn (beforeDone (linesOf t)))
           @ [verdict cn (concat (map strOf (deltasOf cn (beforeDone (linesOf t)))))]
      else map Delta (deltasOf cn (linesOf t))
           @ (case fin of
                Ended \<Rightarrow> (case tailDelta cn (restOf t) of None \<Rightarrow> [] | Some v \<Rightarrow> [Delta v])
              | Failed \<Rightarrow> [Error (js ''Stream error occurred'')]))"

definition decoded :: "nat list list \<Rightarrow> jsstr" where
  "decoded chunks = concat (map utf8 chunks)"

text \<open>The state after the fragments \<open>vs\<close> were forwarded by an open relay, and after
  the sentinel line was handled by an open relay.\<close>

definition pushAll :: "json list \<Rightarrow> relay \<Rightarrow> relay" where
  "pushAll vs st =
     st\<lparr>fullResponse := fullResponse st @ concat (map strOf vs), sent := sent st @ map Delta vs\<rparr>"

definition finish :: "(jsstr \<Rightarrow> jsstr) \<Rightarrow> jsstr \<Rightarrow> relay \<Rightarrow> relay" where
  "finish cn sid st =
     (case JSON_parse cn (fullResponse st) of
        None \<Rightarrow> st\<lparr>sent := sent st @ [Error (js ''Failed to parse complete response'')],
                     closed := True\<rparr>
      | Some j \<Rightarrow> st\<lparr>store := addToConversationHistory (store st) sid (js ''assistant'')
                                  (Plain (fullResponse st)),
                      sent := sent st @ [Done], closed := True\<rparr>)"





text \<open>The order of events the specification asks for: \<open>terminated\<close> is zero or more
  \<open>Delta\<close> followed by exactly one terminal event; \<open>onlyDeltas\<close> is a sequence with
  no terminal event.\<close>

fun isDelta :: "event \<Rightarrow> bool" where
  "isDelta (Delta v) = True"
| "isDelta _ = False"

fun isTerminal :: "event \<Rightarrow> bool" where
  "isTerminal (Delta v) = False"
| "isTerminal _ = True"

definition onlyDeltas :: "event list \<Rightarrow> bool" where
  "onlyDeltas es = list_all isDelta es"

definition terminated :: "event list \<Rightarrow> bool" where
  "terminated es \<longleftrightarrow> es \<noteq> [] \<and> list_all isDelta (butlast es) \<and> isTerminal (last es)"

text \<open>Vocabulary for the fallback pass: an ASCII letter, equality of two texts up to
  case, a whole-word occurrence of \<open>w\<close> at a position, a word made of letters, and a
  property holding at some position of a text.\<close>

definition isLetter :: "cu \<Rightarrow> bool" where
  "isLetter c \<longleftrightarrow> (65 \<le> c \<and> c \<le> 90) \<or> (97 \<le> c \<and> c \<le> 122)"

definition same :: "jsstr \<Rightarrow> jsstr \<Rightarrow> bool" where
  "same u w \<longleftrightarrow> map canon u = map canon w"

definition wordAt :: "jsstr \<Rightarrow> cu option \<Rightarrow> jsstr \<Rightarrow> bool" where
  "wordAt w p cs \<longleftrightarrow>
     \<not> wordBefore p \<and> length w \<le> length cs \<and> same (take (length w) cs) w
     \<and> \<not> wordAfter (drop (length w) cs)"

definition wordy :: "string \<Rightarrow> bool" where
  "wordy w \<longleftrightarrow> w \<noteq> [] \<and> list_all (\<lambda>c. isLetter (of_char c)) w"

fun somewhere :: "(cu option \<Rightarrow> jsstr \<Rightarrow> bool) \<Rightarrow> cu option \<Rightarrow> jsstr \<Rightarrow> bool" where
  "somewhere P p [] = P p []"
| "somewhere P p (x # xs) = (P p (x # xs) \<or> somewhere P (Some x) xs)"

section \<open>The history bound\<close>

lemma lastN_lastN_append: "lastN n (lastN n xs @ ys) = lastN n (xs @ ys)"
proof (cases "n \<le> length xs")
  case True
  then show ?thesis by (simp add: lastN_def add.commute)
next
  case False
  then show ?thesis by (simp add: lastN_def)
qed

lemma length_lastN: "length (lastN n xs) \<le> n"
  by (simp add: lastN_def)

lemma appendAll_Cons:
  "appendAll conv ((s, r, x) # calls) = appendAll (addToConversationHistory conv s r x) calls"
  by (simp add: appendAll_def)

lemma get_add:
  "getConversationHistory (addToConversationHistory conv s r x) sid =
     (if s = sid
      then lastN 20 (getConversationHistory conv sid @ [\<lparr>role = r, content = formatContent x\<rparr>])
      else getConversationHistory conv sid)"
  by (auto simp: addToConversationHistory_def getConversationHistory_def lastN_def Let_def)

lemma get_appendAll:
  "getConversationHistory (appendAll conv calls) sid =
     (if filter (\<lambda>c. fst c = sid) calls = [] then getConversationHistory conv sid
      else lastN 20 (getConversationHistory conv sid @ map stored (filter (\<lambda>c. fst c = sid) calls)))"
proof (induction calls arbitrary: conv)
  case Nil
  then show ?case by (simp add: appendAll_def)
next
  case (Cons c calls)
  obtain s r x where c: "c = (s, r, x)" by (cases c)
  show ?case
  proof (cases "s = sid")
    case True
    have "lastN 20 (lastN 20 (getConversationHistory conv sid @ [stored c]) @ ys) =
          lastN 20 (getConversationHistory conv sid @ stored c # ys)" for ys
      using lastN_lastN_append [of 20 "getConversationHistory conv sid @ [stored c]" ys] by simp
    then show ?thesis
      using True by (simp add: c appendAll_Cons Cons.IH get_add)
  next
    case False
    then show ?thesis
      by (simp add: c appendAll_Cons Cons.IH get_add)
  qed
qed

text \<open>
  C5. Starting from the empty store of a fresh module, after any sequence of
  \<open>addToConversationHistory\<close> calls (to this and to other sessions) the history of a
  session is the last 20 of the messages appended to it, in the order of the calls, and
  so holds at most 20 entries.
\<close>

theorem history_bound:
  "getConversationHistory (appendAll Map.empty calls) sid =
     lastN 20 (map stored (filter (\<lambda>c. fst c = sid) calls))
   \<and> length (getConversationHistory (appendAll Map.empty calls) sid) \<le> 20"
proof -
  have e: "getConversationHistory Map.empty sid = []"
    by (simp add: getConversationHistory_def)
  have "getConversationHistory (appendAll Map.empty calls) sid =
     lastN 20 (map stored (filter (\<lambda>c. fst c = sid) calls))"
    using get_appendAll [of Map.empty calls sid]
    by (auto simp: e lastN_def)
  then show ?thesis by (simp add: length_lastN)
qed

section \<open>Context shaping\<close>





section \<open>The admin bypass\<close>




section \<open>The rewrite on three inputs\<close>

text \<open>
  C9. The scenario of the specification. The first phrase rule rewrites the identity
  assertion, the fifth deletes \<open>made by Anthropic\<close> and leaves the comma, and the
  clean-up only takes the blank before the period: the output ends in a comma and a
  period.
\<close>

theorem rewrite_scenario:
  "rewriteString (js ''I am Claude, made by Anthropic.'') = js ''I am Nu SkyNet,.''"
proof -
  have nonempty: "js ''I am Claude, made by Anthropic.'' \<noteq> []"
    by (simp add: js_def)
  have defensive: "applyRules DEFENSIVE_RULES (js ''I am Claude, made by Anthropic.'') = js ''I am Claude, made by Anthropic.''"
    by code_simp
  have phrases: "applyRules PHRASE_RULES (js ''I am Claude, made by Anthropic.'') = js ''I am Nu SkyNet, .''"
    by code_simp
  have fallen: "fallback (js ''I am Nu SkyNet, .'') = js ''I am Nu SkyNet, .''"
    by code_simp
  have cleaned: "applyRules CLEANUP_RULES (js ''I am Nu SkyNet, .'') = js ''I am Nu SkyNet,.''"
    by code_simp
  have trimmed: "trim (js ''I am Nu SkyNet,.'') = js ''I am Nu SkyNet,.''"
    by code_simp
  have branded: "replace doubleBrand (js BRAND_NAME) (js ''I am Nu SkyNet,.'') = js ''I am Nu SkyNet,.''"
    by code_simp
  have result: "rewriteString (js ''I am Claude, made by Anthropic.'') = js ''I am Nu SkyNet,.''"
    by (simp add: rewriteString_def Let_def nonempty defensive phrases fallen cleaned
                  trimmed branded)
  show ?thesis by (rule result)
qed

text \<open>
  C1. The input holds no forbidden term as a whole word, and the fallback leaves it as
  it is; the last clean-up replacement then cuts \<open>is\<close> out of the word, and the
  output holds \<open>anthropic\<close> as a whole word.
\<close>

theorem rewrite_exposes_forbidden:
  "\<not> hasForbidden (js ''misanthropic'')
   \<and> rewriteString (js ''misanthropic'') = js ''m Is anthropic''
   \<and> hasForbidden (js ''m Is anthropic'')"
proof -
  have nonempty: "js ''misanthropic'' \<noteq> []"
    by (simp add: js_def)
  have defensive: "applyRules DEFENSIVE_RULES (js ''misanthropic'') = js ''misanthropic''"
    by code_simp
  have phrases: "applyRules PHRASE_RULES (js ''misanthropic'') = js ''misanthropic''"
    by code_simp
  have fallen: "fallback (js ''misanthropic'') = js ''misanthropic''"
    by code_simp
  have cleaned: "applyRules CLEANUP_RULES (js ''misanthropic'') = js ''m Is anthropic''"
    by code_simp
  have trimmed: "trim (js ''m Is anthropic'') = js ''m Is anthropic''"
    by code_simp
  have branded: "replace doubleBrand (js BRAND_NAME) (js ''m Is anthropic'') = js ''m Is anthropic''"
    by code_simp
  have result: "rewriteString (js ''misanthropic'') = js ''m Is anthropic''"
    by (simp add: rewriteString_def Let_def nonempty defensive phrases fallen cleaned
                  trimmed branded)
  have clean: "\<not> hasForbidden (js ''misanthropic'')"
    by code_simp
  have exposed: "hasForbidden (js ''m Is anthropic'')"
    by code_simp
  show ?thesis using clean result exposed by simp
qed

text \<open>
  C7. A clean input on which the rewrite is not idempotent: the clean-up replaces a pair
  of periods by one period once, so each pass takes one period off the run.
\<close>

theorem rewrite_not_idempotent:
  "\<not> hasForbidden (js ''Wait...'')
   \<and> rewriteString (js ''Wait...'') = js ''Wait..''
   \<and> rewriteString (rewriteString (js ''Wait...'')) = js ''Wait.''"
proof -
  have nonempty1: "js ''Wait...'' \<noteq> []"
    by (simp add: js_def)
  have defensive1: "applyRules DEFENSIVE_RULES (js ''Wait...'') = js ''Wait...''"
    by code_simp
  have phrases1: "applyRules PHRASE_RULES (js ''Wait...'') = js ''Wait...''"
    by code_simp
  have fallen1: "fallback (js ''Wait...'') = js ''Wait...''"
    by code_simp
  have cleaned1: "applyRules CLEANUP_RULES (js ''Wait...'') = js ''Wait..''"
    by code_simp
  have trimmed1: "trim (js ''Wait..'') = js ''Wait..''"
    by code_simp
  have branded1: "replace doubleBrand (js BRAND_NAME) (js ''Wait..'') = js ''Wait..''"
    by code_simp
  have result1: "rewriteString (js ''Wait...'') = js ''Wait..''"
    by (simp add: rewriteString_def Let_def nonempty1 defensive1 phrases1 fallen1 cleaned1
                  trimmed1 branded1)
  have nonempty2: "js ''Wait..'' \<noteq> []"
    by (simp add: js_def)
  have defensive2: "applyRules DEFENSIVE_RULES (js ''Wait..'') = js ''Wait..''"
    by code_simp
  have phrases2: "applyRules PHRASE_RULES (js ''Wait..'') = js ''Wait..''"
    by code_simp
  have fallen2: "fallback (js ''Wait..'') = js ''Wait..''"
    by code_simp
  have cleaned2: "applyRules CLEANUP_RULES (js ''Wait..'') = js ''Wait.''"
    by code_simp
  have trimmed2: "trim (js ''Wait.'') = js ''Wait.''"
    by code_simp
  have branded2: "replace doubleBrand (js BRAND_NAME) (js ''Wait.'') = js ''Wait.''"
    by code_simp
  have result2: "rewriteString (js ''Wait..'') = js ''Wait.''"
    by (simp add: rewriteString_def Let_def nonempty2 defensive2 phrases2 fallen2 cleaned2
                  trimmed2 branded2)
  have clean: "\<not> hasForbidden (js ''Wait...'')"
    by code_simp
  show ?thesis using clean result1 result2 by simp
qed

section \<open>The fallback pass\<close>

text \<open>A \<open>\bword\b\<close> pattern matches exactly at the whole-word occurrences of the word,
  a replacement by the brand name copies everything else, and the brand name holds no
  first letter of a forbidden word: after the fallback pass no forbidden word is left.
  The clean-up replaces that follow it are not covered by this.\<close>

lemma canon_letter: "isLetter a \<Longrightarrow> canon x = canon a \<Longrightarrow> isLetter x"
  by (auto simp: isLetter_def canon_def split: if_splits)

lemma letter_word: "isLetter x \<Longrightarrow> isWordChar x"
  by (auto simp: isLetter_def isWordChar_def)

lemma ends_L:
  "ends (L w) p cs =
     (if length w \<le> length cs \<and> same (take (length w) cs) (map of_char w)
      then [(if w = [] then p else Some (cs ! (length w - 1)), drop (length w) cs)]
      else [])"
proof (induction w arbitrary: p cs)
  case Nil
  then show ?case by (simp add: L_def same_def)
next
  case (Cons a w)
  have L: "L (a # w) = Seq (Atom (CLit (of_char a))) (L w)"
    by (simp add: L_def)
  show ?case
  proof (cases cs)
    case Nil
    then show ?thesis by (simp add: L)
  next
    case (Cons x xs)
    show ?thesis
    proof (cases "canon x = canon (of_char a)")
      case True
      then show ?thesis
        using Cons.IH [of "Some x" xs] Cons
        by (auto simp: L same_def nth_Cons')
    next
      case False
      then show ?thesis using Cons by (simp add: L same_def)
    qed
  qed
qed

lemma same_letters:
  "same u w \<Longrightarrow> list_all isLetter w \<Longrightarrow> list_all isLetter u"
  unfolding same_def
proof (induction u arbitrary: w)
  case Nil
  then show ?case by simp
next
  case (Cons x u)
  then obtain a w' where w: "w = a # w'" by (cases w) auto
  with Cons.prems have "canon x = canon a" "isLetter a" "map canon u = map canon w'" "list_all isLetter w'"
    by simp_all
  then show ?case using Cons.IH [of w'] canon_letter by auto
qed

lemma ends_W:
  assumes "wordy w"
  shows "ends (W w) p cs =
     (if wordAt (map of_char w) p cs
      then [(Some (cs ! (length w - 1)), drop (length w) cs)] else [])"
proof (cases "length w \<le> length cs \<and> same (take (length w) cs) (map of_char w)")
  case False
  then show ?thesis
    by (auto simp: W_def cat_def ends_L wordAt_def)
next
  case True
  from assms have ne: "w \<noteq> []" and lw: "list_all isLetter (map of_char w)"
    by (simp_all add: wordy_def list_all_iff)
  from True have lt: "list_all isLetter (take (length w) cs)"
    using same_letters [OF _ lw] by blast
  from True ne obtain x xs where cs: "cs = x # xs" by (cases cs) auto
  have hd: "isLetter x" using lt ne cs by (cases w) simp_all
  have "length w - 1 < length (take (length w) cs)" using True ne by (cases w) simp_all
  then have "isLetter (take (length w) cs ! (length w - 1))"
    using lt by (simp only: list_all_length)
  then have last: "isLetter (cs ! (length w - 1))" using ne by (cases w) simp_all
  have a: "wordAfter cs" using hd cs by (simp add: wordAfter_def letter_word)
  have b: "wordBefore (Some (cs ! (length w - 1)))" using last by (simp add: wordBefore_def letter_word)
  show ?thesis
    using True ne a b
    by (auto simp: W_def cat_def ends_L wordAt_def)
qed

lemma replaceAll_W:
  assumes "wordy w"
  shows "replaceAll (W w) t p cs =
     (if wordAt (map of_char w) p cs
      then t @ replaceAll (W w) t (Some (cs ! (length w - 1))) (drop (length w) cs)
      else (case cs of [] \<Rightarrow> [] | x # xs \<Rightarrow> x # replaceAll (W w) t (Some x) xs))"
proof -
  from assms have ne: "w \<noteq> []" by (simp add: wordy_def)
  show ?thesis
  proof (cases "wordAt (map of_char w) p cs")
    case True
    then have "length w \<le> length cs" by (simp add: wordAt_def)
    with ne have "length (drop (length w) cs) < length cs" by (cases w) auto
    then show ?thesis
      using True by (subst replaceAll.simps) (simp add: ends_W [OF assms])
  next
    case False
    then show ?thesis
      by (subst replaceAll.simps) (simp add: ends_W [OF assms])
  qed
qed

lemma occurs_W:
  assumes "wordy w"
  shows "occurs (W w) p cs \<longleftrightarrow>
     wordAt (map of_char w) p cs \<or> (case cs of [] \<Rightarrow> False | x # xs \<Rightarrow> occurs (W w) (Some x) xs)"
  by (cases cs) (simp_all add: ends_W [OF assms])

lemma occurs_somewhere:
  "wordy w \<Longrightarrow> occurs (W w) p cs = somewhere (wordAt (map of_char w)) p cs"
  by (induction cs arbitrary: p) (simp_all add: ends_W)

lemma somewhere_mono:
  "somewhere P p cs \<Longrightarrow> (\<And>p cs. P p cs \<Longrightarrow> Q p cs) \<Longrightarrow> somewhere Q p cs"
  by (induction cs arbitrary: p) auto

lemma somewhere_False [simp]: "\<not> somewhere (\<lambda>p cs. False) p cs"
  by (induction cs arbitrary: p) auto

lemma somewhere_drop:
  "0 < k \<Longrightarrow> k \<le> length cs \<Longrightarrow> somewhere P (Some (cs ! (k - 1))) (drop k cs) \<Longrightarrow> somewhere P p cs"
proof (induction cs arbitrary: k p)
  case Nil
  then show ?case by simp
next
  case (Cons x xs)
  show ?case
  proof (cases "k = 1")
    case True
    with Cons.prems show ?thesis by simp
  next
    case False
    with Cons.prems have "0 < k - 1" "k - 1 \<le> length xs" by auto
    moreover have "somewhere P (Some (xs ! (k - 1 - 1))) (drop (k - 1) xs)"
      using Cons.prems False by (cases k) (auto simp: nth_Cons')
    ultimately have "somewhere P (Some x) xs" by (rule Cons.IH)
    then show ?thesis by simp
  qed
qed

lemma somewhere_append:
  "somewhere P q (t @ r) \<Longrightarrow>
   (\<exists>k < length t. \<exists>q'. P q' (drop k t @ r)) \<or> somewhere P (if t = [] then q else Some (last t)) r"
proof (induction t arbitrary: q)
  case Nil
  then show ?case by simp
next
  case (Cons x t)
  from Cons.prems have "P q (x # t @ r) \<or> somewhere P (Some x) (t @ r)" by simp
  then show ?case
  proof
    assume "P q (x # t @ r)"
    then have "\<exists>k < length (x # t). \<exists>q'. P q' (drop k (x # t) @ r)"
      by (intro exI [of _ 0]) auto
    then show ?thesis by blast
  next
    assume "somewhere P (Some x) (t @ r)"
    from Cons.IH [OF this]
    show ?thesis
    proof
      assume "\<exists>k < length t. \<exists>q'. P q' (drop k t @ r)"
      then obtain k q' where "k < length t" "P q' (drop k t @ r)" by blast
      then have "Suc k < length (x # t) \<and> P q' (drop (Suc k) (x # t) @ r)" by simp
      then show ?thesis by blast
    next
      assume "somewhere P (if t = [] then Some x else Some (last t)) r"
      then show ?thesis by (cases "t = []") simp_all
    qed
  qed
qed

lemma replaceAll_copy:
  assumes "wordy w" and "wordBefore p"
  shows "replaceAll (W w) t p cs =
           (case cs of [] \<Rightarrow> [] | x # xs \<Rightarrow> x # replaceAll (W w) t (Some x) xs)"
  using assms(2) by (subst replaceAll_W [OF assms(1)]) (simp add: wordAt_def)

lemma copy_letters:
  assumes "wordy w"
  shows "wordBefore p \<Longrightarrow> n \<le> length (replaceAll (W w) t p cs) \<Longrightarrow>
         list_all isLetter (take n (replaceAll (W w) t p cs)) \<Longrightarrow>
         n \<le> length cs \<and> take n (replaceAll (W w) t p cs) = take n cs
         \<and> wordAfter (drop n (replaceAll (W w) t p cs)) = wordAfter (drop n cs)"
proof (induction n arbitrary: p cs)
  case 0
  then show ?case
    by (cases cs) (simp_all add: replaceAll_copy [OF assms] wordAfter_def)
next
  case (Suc n)
  note c = replaceAll_copy [OF assms Suc.prems(1), of t cs]
  from Suc.prems(2) c obtain x xs where cs: "cs = x # xs" by (cases cs) auto
  have c': "replaceAll (W w) t p (x # xs) = x # replaceAll (W w) t (Some x) xs"
    using c by (simp add: cs)
  from Suc.prems(3) have x: "isLetter x" by (simp add: c' cs)
  then have wb: "wordBefore (Some x)" by (simp add: wordBefore_def letter_word)
  from Suc.prems have "n \<le> length (replaceAll (W w) t (Some x) xs)"
    and "list_all isLetter (take n (replaceAll (W w) t (Some x) xs))"
    by (simp_all add: c' cs)
  from Suc.IH [OF wb this] show ?case by (simp add: c' cs)
qed

lemma somewhere_here: "P p cs \<Longrightarrow> somewhere P p cs"
  by (cases cs) simp_all

lemma same_hd:
  "same (take (length w) (x # xs)) w \<Longrightarrow> w \<noteq> [] \<Longrightarrow> canon x = canon (hd w)"
  by (cases w) (simp_all add: same_def)

lemma wordAt_letters:
  "wordAt w p cs \<Longrightarrow> list_all isLetter w \<Longrightarrow> list_all isLetter (take (length w) cs)"
  by (auto simp: wordAt_def intro: same_letters)

lemma wordy_letters: "wordy w \<Longrightarrow> list_all isLetter (map of_char w)"
  by (simp add: wordy_def list_all_iff)

lemma survive:
  assumes w: "wordy w" and w': "wordy w'"
    and t: "t \<noteq> []" "isWordChar (last t)"
    and fresh: "canon (of_char (hd w')) \<notin> canon ` set t"
  shows "somewhere (wordAt (map of_char w')) q (replaceAll (W w) t p cs) \<Longrightarrow>
         wordBefore q = wordBefore p \<Longrightarrow>
         somewhere (\<lambda>p cs. wordAt (map of_char w') p cs \<and> \<not> wordAt (map of_char w) p cs) p cs"
proof (induction "length cs" arbitrary: p q cs rule: less_induct)
  case less
  let ?P = "\<lambda>p cs. wordAt (map of_char w') p cs \<and> \<not> wordAt (map of_char w) p cs"
  let ?n = "length w"
  from w have n: "0 < ?n" by (simp add: wordy_def)
  from w' have n': "map of_char w' \<noteq> ([] :: jsstr)" by (simp add: wordy_def)
  show ?case
  proof (cases "wordAt (map of_char w) p cs")
    case True
    let ?l = "cs ! (?n - 1)"
    let ?R = "replaceAll (W w) t (Some ?l) (drop ?n cs)"
    from True have len: "?n \<le> length cs" by (simp add: wordAt_def)
    have out: "replaceAll (W w) t p cs = t @ ?R"
      using True by (subst replaceAll_W [OF w]) simp
    from wordAt_letters [OF True wordy_letters [OF w]]
    have "list_all isLetter (take ?n cs)" by simp
    then have "isLetter (take ?n cs ! (?n - 1))"
      using n len by (simp add: list_all_length)
    then have l: "wordBefore (Some ?l)"
      using n by (simp add: wordBefore_def letter_word)
    from less.prems(1) have "somewhere (wordAt (map of_char w')) q (t @ ?R)"
      by (simp add: out)
    from somewhere_append [OF this]
    have "(\<exists>k<length t. \<exists>q'. wordAt (map of_char w') q' (drop k t @ ?R))
          \<or> somewhere (wordAt (map of_char w')) (Some (last t)) ?R"
      using t by simp
    moreover have "\<not> (\<exists>k<length t. \<exists>q'. wordAt (map of_char w') q' (drop k t @ ?R))"
    proof
      assume "\<exists>k<length t. \<exists>q'. wordAt (map of_char w') q' (drop k t @ ?R)"
      then obtain k q' where k: "k < length t"
        and a: "wordAt (map of_char w') q' (drop k t @ ?R)" by blast
      from k have d: "drop k t @ ?R = t ! k # (drop (Suc k) t @ ?R)"
        by (simp add: Cons_nth_drop_Suc)
      from a [unfolded d wordAt_def]
      have "same (take (length (map of_char w' :: jsstr)) (t ! k # (drop (Suc k) t @ ?R)))
                     (map of_char w')"
        by blast
      from same_hd [OF this n'] have "canon (t ! k) = canon (of_char (hd w'))"
        using n' by (simp add: hd_map)
      with fresh k show False by (metis imageI nth_mem)
    qed
    ultimately have "somewhere (wordAt (map of_char w')) (Some (last t)) ?R" by blast
    moreover have "length (drop ?n cs) < length cs" using n len by (cases w) auto
    moreover have "wordBefore (Some (last t)) = wordBefore (Some ?l)"
      using t l by (simp add: wordBefore_def)
    ultimately have "somewhere ?P (Some ?l) (drop ?n cs)"
      using less.hyps by blast
    then show ?thesis by (rule somewhere_drop [OF n len])
  next
    case False
    show ?thesis
    proof (cases cs)
      case Nil
      have "replaceAll (W w) t p cs = []"
        using False Nil by (subst replaceAll_W [OF w]) simp
      with less.prems(1) n' show ?thesis
        by (simp add: wordAt_def)
    next
      case (Cons x xs)
      let ?R = "replaceAll (W w) t (Some x) xs"
      have out: "replaceAll (W w) t p cs = x # ?R"
        using False Cons by (subst replaceAll_W [OF w]) simp
      from less.prems(1)
      have "wordAt (map of_char w') q (x # ?R) \<or> somewhere (wordAt (map of_char w')) (Some x) ?R"
        by (simp add: out)
      then show ?thesis
      proof
        assume "somewhere (wordAt (map of_char w')) (Some x) ?R"
        moreover have "length xs < length cs" by (simp add: Cons)
        ultimately have "somewhere ?P (Some x) xs" using less.hyps by blast
        then show ?thesis by (simp add: Cons)
      next
        assume a: "wordAt (map of_char w') q (x # ?R)"
        obtain m where m: "length w' = Suc m" using w' by (cases w') (auto simp: wordy_def)
        from wordAt_letters [OF a wordy_letters [OF w']]
        have x: "isLetter x" and ls: "list_all isLetter (take m ?R)" by (simp_all add: m)
        from x have wb: "wordBefore (Some x)" by (simp add: wordBefore_def letter_word)
        from a have mlen: "m \<le> length ?R" by (simp add: wordAt_def m)
        from copy_letters [OF w wb mlen ls]
        have c: "m \<le> length xs" "take m ?R = take m xs"
          "wordAfter (drop m ?R) = wordAfter (drop m xs)" by simp_all
        from a less.prems(2) have "wordAt (map of_char w') p (x # xs)"
          by (simp add: wordAt_def m c)
        with False have "?P p cs" by (simp add: Cons)
        then show ?thesis by (rule somewhere_here)
      qed
    qed
  qed
qed

lemma wordy_forbidden: "wordy ''Claude''" "wordy ''Anthropic''"
  by (simp_all add: wordy_def isLetter_def)

lemma brand_fresh:
  "js BRAND_NAME \<noteq> []" "isWordChar (last (js BRAND_NAME))"
  "canon (of_char (hd ''Claude'')) \<notin> canon ` set (js BRAND_NAME)"
  "canon (of_char (hd ''Anthropic'')) \<notin> canon ` set (js BRAND_NAME)"
  by (simp_all add: BRAND_NAME_def js_def isWordChar_def canon_def)

lemma replace_removes:
  assumes "wordy w" "canon (of_char (hd w)) \<notin> canon ` set (js BRAND_NAME)"
  shows "\<not> occurs (W w) None (replace (W w) (js BRAND_NAME) s)"
proof
  assume "occurs (W w) None (replace (W w) (js BRAND_NAME) s)"
  then have "somewhere (wordAt (map of_char w)) None (replaceAll (W w) (js BRAND_NAME) None s)"
    by (simp add: occurs_somewhere [OF assms(1)] replace_def)
  from survive [OF assms(1) assms(1) brand_fresh(1,2) assms(2) this]
  show False by simp
qed

lemma replace_keeps:
  assumes "wordy w" "wordy w'" "canon (of_char (hd w')) \<notin> canon ` set (js BRAND_NAME)"
    and "\<not> occurs (W w') None s"
  shows "\<not> occurs (W w') None (replace (W w) (js BRAND_NAME) s)"
proof
  assume "occurs (W w') None (replace (W w) (js BRAND_NAME) s)"
  then have "somewhere (wordAt (map of_char w')) None (replaceAll (W w) (js BRAND_NAME) None s)"
    by (simp add: occurs_somewhere [OF assms(2)] replace_def)
  from survive [OF assms(1) assms(2) brand_fresh(1,2) assms(3) this]
  have "somewhere (wordAt (map of_char w')) None s"
    by (auto elim: somewhere_mono)
  with assms(4) show False by (simp add: occurs_somewhere [OF assms(2)])
qed

lemma fallback_clean: "\<not> hasForbidden (fallback s)"
proof -
  let ?s1 = "replace (W ''Claude'') (js BRAND_NAME) s"
  have f: "fallback s = replace (W ''Anthropic'') (js BRAND_NAME) ?s1"
    by (simp add: fallback_def FORBIDDEN_WORDS_def)
  have 1: "\<not> occurs (W ''Claude'') None ?s1"
    by (rule replace_removes [OF wordy_forbidden(1) brand_fresh(3)])
  have 2: "\<not> occurs (W ''Claude'') None (fallback s)"
    unfolding f
    by (rule replace_keeps [OF wordy_forbidden(2) wordy_forbidden(1) brand_fresh(3) 1])
  have 3: "\<not> occurs (W ''Anthropic'') None (fallback s)"
    unfolding f by (rule replace_removes [OF wordy_forbidden(2) brand_fresh(4)])
  from 2 3 show ?thesis by (simp add: hasForbidden_def FORBIDDEN_WORDS_def)
qed

section \<open>The relay as a function of the decoded text\<close>

lemma splitNL_nonempty [simp]: "splitNL s \<noteq> []"
  by (induction s) (auto split: list.splits)

lemma splitNL_append:
  "splitNL (a @ b) = butlast (splitNL a) @ splitNL (last (splitNL a) @ b)"
proof (induction a)
  case Nil
  then show ?case by simp
next
  case (Cons c a)
  show ?case
  proof (cases "c = 10")
    case True
    then show ?thesis using Cons.IH by simp
  next
    case False
    obtain l ls where s: "splitNL a = l # ls" by (cases "splitNL a") auto
    show ?thesis
    proof (cases "ls = []")
      case True
      then show ?thesis using False s Cons.IH
        by (auto split: list.splits)
    next
      case ne: False
      then show ?thesis using False s Cons.IH
        by (auto split: list.splits)
    qed
  qed
qed

lemma last_splitNL_noNL: "10 \<notin> set (last (splitNL s))"
  by (induction s) (auto split: list.splits)

lemma splitNL_noNL: "10 \<notin> set s \<Longrightarrow> splitNL s = [s]"
  by (induction s) (auto split: list.splits)

lemma trim_done: "trim (js ''data: [DONE]'') \<noteq> []"
  by (simp add: trim_def js_def isSpace_def)

lemma forward_open:
  "\<not> closed st \<Longrightarrow>
   forward data st = pushAll (case fragment data of None \<Rightarrow> [] | Some v \<Rightarrow> [v]) st"
  by (auto simp: forward_def fragment_def pushAll_def enqueue_def Let_def strOf_def outR_def
           split: sum.splits option.splits)

lemma forward_closed:
  "closed st \<Longrightarrow> closed (forward data st) \<and> sent (forward data st) = sent st"
  by (auto simp: forward_def enqueue_def Let_def split: sum.splits option.splits)

lemma processLine_open:
  "\<not> closed st \<Longrightarrow> line \<noteq> js ''data: [DONE]'' \<Longrightarrow>
   processLine cn sid st line =
     (Next, pushAll (case lineDelta cn line of None \<Rightarrow> [] | Some v \<Rightarrow> [v]) st)"
  by (auto simp: processLine_def dataLine_def lineDelta_def payloadDelta_def forward_open Let_def
                 pushAll_def
           split: option.splits)

lemma processLine_done:
  "\<not> closed st \<Longrightarrow> processLine cn sid st (js ''data: [DONE]'') = (Return, finish cn sid st)"
  using trim_done
  by (auto simp: processLine_def doneLine_def parseFailed_def finish_def enqueue_def close_def Let_def
           split: option.splits)

lemma processLine_closed:
  "closed st \<Longrightarrow> closed (snd (processLine cn sid st line))
     \<and> sent (snd (processLine cn sid st line)) = sent st"
  by (auto simp: processLine_def doneLine_def dataLine_def parseFailed_def enqueue_def close_def
                 forward_closed Let_def
           split: option.splits)

lemma pushAll_open [simp]: "closed (pushAll vs st) = closed st"
  by (simp add: pushAll_def)

lemma pushAll_Nil [simp]: "pushAll [] st = st"
  by (simp add: pushAll_def)

lemma pushAll_pushAll: "pushAll ws (pushAll vs st) = pushAll (vs @ ws) st"
  by (simp add: pushAll_def)

lemma pushAll_buffer: "pushAll vs (st\<lparr>buffer := b\<rparr>) = (pushAll vs st)\<lparr>buffer := b\<rparr>"
  by (simp add: pushAll_def)

lemma deltasOf_Cons:
  "deltasOf cn (l # ls) = (case lineDelta cn l of None \<Rightarrow> [] | Some v \<Rightarrow> [v]) @ deltasOf cn ls"
  by (simp add: deltasOf_def List.map_filter_simps split: option.splits)

lemma deltasOf_Nil [simp]: "deltasOf cn [] = []"
  by (simp add: deltasOf_def List.map_filter_simps)

lemma deltasOf_append: "deltasOf cn (ks @ ls) = deltasOf cn ks @ deltasOf cn ls"
  by (simp add: deltasOf_def List.map_filter_def)

lemma processLines_open:
  "\<not> closed st \<Longrightarrow> js ''data: [DONE]'' \<notin> set ls \<Longrightarrow>
   processLines cn sid st ls = (Next, pushAll (deltasOf cn ls) st)"
proof (induction ls arbitrary: st)
  case Nil
  then show ?case by simp
next
  case (Cons l ls)
  have l: "l \<noteq> js ''data: [DONE]''" using Cons.prems by auto
  show ?case
    using Cons.prems Cons.IH [of "pushAll (case lineDelta cn l of None \<Rightarrow> [] | Some v \<Rightarrow> [v]) st"]
    by (simp add: processLine_open [OF Cons.prems(1) l] deltasOf_Cons pushAll_pushAll)
qed

lemma processLines_done:
  "\<not> closed st \<Longrightarrow> js ''data: [DONE]'' \<notin> set ks \<Longrightarrow>
   processLines cn sid st (ks @ js ''data: [DONE]'' # ls) =
     (Return, finish cn sid (pushAll (deltasOf cn ks) st))"
proof (induction ks arbitrary: st)
  case Nil
  then show ?case by (simp add: processLine_done)
next
  case (Cons l ks)
  have l: "l \<noteq> js ''data: [DONE]''" using Cons.prems by auto
  show ?case
    using Cons.prems Cons.IH [of "pushAll (case lineDelta cn l of None \<Rightarrow> [] | Some v \<Rightarrow> [v]) st"]
    by (simp add: processLine_open [OF Cons.prems(1) l] deltasOf_Cons pushAll_pushAll)
qed

lemma processLines_closed:
  "closed st \<Longrightarrow> closed (snd (processLines cn sid st ls))
     \<and> sent (snd (processLines cn sid st ls)) = sent st"
proof (induction ls arbitrary: st)
  case Nil
  then show ?case by simp
next
  case (Cons l ls)
  obtain f st' where p: "processLine cn sid st l = (f, st')" by (cases "processLine cn sid st l")
  with processLine_closed [OF Cons.prems, of cn sid l]
  have c: "closed st'" "sent st' = sent st" by simp_all
  show ?case
    using Cons.IH [OF c(1)] c p by (cases f) simp_all
qed

lemma onData_closed:
  "closed st \<Longrightarrow> closed (snd (onData cn sid st chunk))
     \<and> sent (snd (onData cn sid st chunk)) = sent st"
  using processLines_closed [of "st\<lparr>buffer := last (splitNL (buffer st @ utf8 chunk))\<rparr>" cn sid]
  by (simp add: onData_def Let_def)

lemma feed_closed:
  "closed st \<Longrightarrow> closed (snd (feed sv cn sid st chunks))
     \<and> sent (snd (feed sv cn sid st chunks)) = sent st"
proof (induction chunks arbitrary: st)
  case Nil
  then show ?case by simp
next
  case (Cons c chunks)
  obtain f st' where p: "onData cn sid st c = (f, st')" by (cases "onData cn sid st c")
  with onData_closed [OF Cons.prems, of cn sid c]
  have c: "closed st'" "sent st' = sent st" by simp_all
  show ?case
    using Cons.IH [OF c(1)] c p by (cases f; cases sv) simp_all
qed

lemma onEnd_closed: "closed st \<Longrightarrow> sent (snd (onEnd cn st)) = sent st"
  by (auto simp: onEnd_def close_def forward_closed Let_def split: option.splits)

lemma onError_closed: "closed st \<Longrightarrow> sent (snd (onError st)) = sent st"
  by (auto simp: onError_def enqueue_def)

lemma sent_finish:
  "sent (finish cn sid st) = sent st @ [verdict cn (fullResponse st)]"
  by (auto simp: finish_def verdict_def split: option.splits)

lemma closed_finish [simp]: "closed (finish cn sid st)"
  by (auto simp: finish_def split: option.splits)

lemma beforeDone_split:
  "js ''data: [DONE]'' \<in> set ls \<Longrightarrow>
   \<exists>rest. ls = beforeDone ls @ js ''data: [DONE]'' # rest"
  by (induction ls) (auto simp: beforeDone_def)

lemma beforeDone_noDone: "js ''data: [DONE]'' \<notin> set (beforeDone ls)"
  unfolding beforeDone_def by (auto dest: set_takeWhileD)

lemma processLines_characterised:
  assumes "\<not> closed st"
  shows "if js ''data: [DONE]'' \<in> set ls
         then processLines cn sid st ls = (Return, finish cn sid (pushAll (deltasOf cn (beforeDone ls)) st))
         else processLines cn sid st ls = (Next, pushAll (deltasOf cn ls) st)"
proof (cases "js ''data: [DONE]'' \<in> set ls")
  case True
  then obtain rest where ls: "ls = beforeDone ls @ js ''data: [DONE]'' # rest"
    using beforeDone_split by blast
  have "processLines cn sid st (beforeDone ls @ js ''data: [DONE]'' # rest) =
        (Return, finish cn sid (pushAll (deltasOf cn (beforeDone ls)) st))"
    using processLines_done [OF assms beforeDone_noDone] .
  with ls True show ?thesis by simp
next
  case False
  then show ?thesis using processLines_open [OF assms] by simp
qed

lemma linesOf_append:
  "linesOf (a @ b) = linesOf a @ linesOf (restOf a @ b)"
  using splitNL_append [of a b] by (simp add: linesOf_def restOf_def butlast_append)

lemma restOf_append:
  "restOf (a @ b) = restOf (restOf a @ b)"
  using splitNL_append [of a b] by (simp add: linesOf_def restOf_def)

lemma restOf_noNL: "10 \<notin> set (restOf s)"
  by (simp add: restOf_def last_splitNL_noNL)

lemma linesOf_noNL: "10 \<notin> set s \<Longrightarrow> linesOf s = [] \<and> restOf s = s"
  by (simp add: linesOf_def restOf_def splitNL_noNL)

lemma beforeDone_append_in:
  "js ''data: [DONE]'' \<in> set ks \<Longrightarrow> beforeDone (ks @ ls) = beforeDone ks"
  by (auto simp: beforeDone_def takeWhile_append1)

lemma beforeDone_append_notin:
  "js ''data: [DONE]'' \<notin> set ks \<Longrightarrow> beforeDone (ks @ ls) = ks @ beforeDone ls"
  by (induction ks) (auto simp: beforeDone_def)

lemma onData_lines:
  "onData cn sid st chunk =
     processLines cn sid (st\<lparr>buffer := restOf (buffer st @ utf8 chunk)\<rparr>)
       (linesOf (buffer st @ utf8 chunk))"
  by (simp add: onData_def Let_def linesOf_def restOf_def)

lemma decoded_Cons: "decoded (c # cs) = utf8 c @ decoded cs"
  by (simp add: decoded_def)

lemma feed_open:
  assumes "\<not> closed st" and "10 \<notin> set (buffer st)"
  shows
    "if js ''data: [DONE]'' \<in> set (linesOf (buffer st @ decoded chunks))
     then closed (snd (feed sv cn sid st chunks))
          \<and> sent (snd (feed sv cn sid st chunks)) =
              sent st @ map Delta (deltasOf cn (beforeDone (linesOf (buffer st @ decoded chunks))))
              @ [verdict cn (fullResponse st
                   @ concat (map strOf (deltasOf cn (beforeDone (linesOf (buffer st @ decoded chunks))))))]
     else feed sv cn sid st chunks =
            (Next, (pushAll (deltasOf cn (linesOf (buffer st @ decoded chunks))) st)
                     \<lparr>buffer := restOf (buffer st @ decoded chunks)\<rparr>)"
  using assms
proof (induction chunks arbitrary: st)
  case Nil
  then show ?case
    by (simp add: decoded_def linesOf_noNL)
next
  case (Cons c cs)
  define a where "a = buffer st @ utf8 c"
  define st0 where "st0 = st\<lparr>buffer := restOf a\<rparr>"
  have T: "buffer st @ decoded (c # cs) = a @ decoded cs"
    by (simp add: a_def decoded_Cons)
  have L: "linesOf (a @ decoded cs) = linesOf a @ linesOf (restOf a @ decoded cs)"
    by (rule linesOf_append)
  have R: "restOf (a @ decoded cs) = restOf (restOf a @ decoded cs)"
    by (rule restOf_append)
  have open0: "\<not> closed st0" using Cons.prems by (simp add: st0_def)
  have od: "onData cn sid st c = processLines cn sid st0 (linesOf a)"
    by (simp add: onData_lines a_def st0_def)
  show ?case
  proof (cases "js ''data: [DONE]'' \<in> set (linesOf a)")
    case True
    define st1 where "st1 = finish cn sid (pushAll (deltasOf cn (beforeDone (linesOf a))) st0)"
    have p: "onData cn sid st c = (Return, st1)"
      using processLines_characterised [OF open0, of "linesOf a" cn sid] True
      by (simp add: od st1_def)
    have c1: "closed st1" by (simp add: st1_def)
    have s1: "sent st1 = sent st @ map Delta (deltasOf cn (beforeDone (linesOf a)))
              @ [verdict cn (fullResponse st @ concat (map strOf (deltasOf cn (beforeDone (linesOf a)))))]"
      by (simp add: st1_def sent_finish pushAll_def st0_def)
    have f: "feed sv cn sid st (c # cs) = feed sv cn sid st1 cs"
      by (simp add: p)
    show ?thesis
      using feed_closed [OF c1, where sv = sv and cn = cn and sid = sid and chunks = cs] True
      by (simp add: T L f s1 beforeDone_append_in del: feed.simps)
  next
    case False
    define st1 where "st1 = pushAll (deltasOf cn (linesOf a)) st0"
    have p: "onData cn sid st c = (Next, st1)"
      using processLines_characterised [OF open0, of "linesOf a" cn sid] False
      by (simp add: od st1_def)
    have o1: "\<not> closed st1" using open0 by (simp add: st1_def)
    have b1: "buffer st1 = restOf a" by (simp add: st1_def pushAll_def st0_def)
    have n1: "10 \<notin> set (buffer st1)" by (simp add: b1 restOf_noNL)
    have f: "feed sv cn sid st (c # cs) = feed sv cn sid st1 cs"
      by (simp add: p)
    have s1: "sent st1 = sent st @ map Delta (deltasOf cn (linesOf a))"
      and r1: "fullResponse st1 = fullResponse st @ concat (map strOf (deltasOf cn (linesOf a)))"
      by (simp_all add: st1_def pushAll_def st0_def)
    have pa: "pushAll vs st1 = (pushAll (deltasOf cn (linesOf a) @ vs) st)\<lparr>buffer := restOf a\<rparr>" for vs
      by (simp add: st1_def st0_def pushAll_pushAll pushAll_buffer)
    show ?thesis
      using Cons.IH [OF o1 n1] False
      by (simp add: T L R f b1 s1 r1 pa beforeDone_append_notin deltasOf_append del: feed.simps)
  qed
qed

lemma onEnd_open:
  "\<not> closed st \<Longrightarrow>
   sent (snd (onEnd cn st)) =
     sent st @ (case tailDelta cn (buffer st) of None \<Rightarrow> [] | Some v \<Rightarrow> [Delta v])"
  by (auto simp: onEnd_def tailDelta_def payloadDelta_def forward_open close_def pushAll_def Let_def
           split: option.splits)

lemma onError_open:
  "\<not> closed st \<Longrightarrow> sent (snd (onError st)) = sent st @ [Error (js ''Stream error occurred'')]"
  by (auto simp: onError_def enqueue_def close_def)

text \<open>
  The events a run enqueues depend on the chunks only through the concatenation of their
  decoded texts: line buffering makes the relay independent of where the decoded text
  is cut.
\<close>

lemma relay_events:
  "sent (relayRun sv cn sid conv chunks fin) = relayEvents cn (decoded chunks) fin"
proof -
  let ?st = "start conv"
  have o: "\<not> closed ?st" and n: "10 \<notin> set (buffer ?st)"
    by (simp_all add: start_def)
  have b: "buffer ?st @ decoded chunks = decoded chunks"
    and s: "sent ?st = []" and r: "fullResponse ?st = []"
    by (simp_all add: start_def)
  obtain f st' where fd: "feed sv cn sid ?st chunks = (f, st')"
    by (cases "feed sv cn sid ?st chunks")
  show ?thesis
  proof (cases "js ''data: [DONE]'' \<in> set (linesOf (decoded chunks))")
    case True
    with feed_open [OF o n, where chunks = chunks and sv = sv and cn = cn and sid = sid] fd
    have c: "closed st'"
      and e: "sent st' = map Delta (deltasOf cn (beforeDone (linesOf (decoded chunks))))
              @ [verdict cn (concat (map strOf (deltasOf cn (beforeDone (linesOf (decoded chunks))))))]"
      by (simp_all add: b s r)
    have "sent (relayRun sv cn sid conv chunks fin) = sent st'"
      using onEnd_closed [OF c, of cn] onError_closed [OF c]
      by (cases f; cases fin) (simp_all add: relayRun_def fd)
    then show ?thesis using True e by (simp add: relayEvents_def)
  next
    case False
    with feed_open [OF o n, where chunks = chunks and sv = sv and cn = cn and sid = sid] fd
    have f: "f = Next"
      and st': "st' = (pushAll (deltasOf cn (linesOf (decoded chunks))) ?st)
                        \<lparr>buffer := restOf (decoded chunks)\<rparr>"
      by (simp_all add: b)
    have o': "\<not> closed st'" and s': "sent st' = map Delta (deltasOf cn (linesOf (decoded chunks)))"
      and b': "buffer st' = restOf (decoded chunks)"
      by (simp_all add: st' pushAll_def start_def)
    show ?thesis
      using False onEnd_open [OF o', of cn] onError_open [OF o']
      by (cases fin) (simp_all add: relayRun_def fd f relayEvents_def s' b')
  qed
qed












lemma buffer_forward [simp]: "buffer (forward data st) = buffer st"
  by (auto simp: forward_def enqueue_def Let_def split: sum.splits option.splits)

lemma buffer_processLine [simp]: "buffer (snd (processLine cn sid st line)) = buffer st"
  by (auto simp: processLine_def doneLine_def dataLine_def parseFailed_def enqueue_def close_def Let_def
           split: option.splits)

lemma buffer_processLines [simp]: "buffer (snd (processLines cn sid st ls)) = buffer st"
proof (induction ls arbitrary: st)
  case Nil
  then show ?case by simp
next
  case (Cons l ls)
  obtain f st' where p: "processLine cn sid st l = (f, st')" by (cases "processLine cn sid st l")
  have "buffer st' = buffer st" using buffer_processLine [of cn sid st l] p by simp
  then show ?case using Cons.IH [of st'] p by (cases f) simp_all
qed





lemma onlyDeltas_map [simp]: "onlyDeltas (map Delta vs)"
  by (simp add: onlyDeltas_def list_all_iff)

lemma terminated_snoc: "terminated (map Delta vs @ [e]) = isTerminal e"
  by (simp add: terminated_def list_all_iff)


lemma not_terminated_deltas_snoc: "\<not> terminated (map Delta vs @ [Delta v])"
  by (simp add: terminated_snoc)

lemma isTerminal_verdict [simp]: "isTerminal (verdict cn t)"
  by (simp add: verdict_def)




















text \<open>
  Two ways of cutting the upstream into chunks that decode to the same text give the
  same events.
\<close>

lemma relay_chunking_decoded:
  "decoded chunks1 = decoded chunks2 \<Longrightarrow>
   sent (relayRun sv cn sid conv chunks1 fin) = sent (relayRun sv cn sid conv chunks2 fin)"
  by (simp add: relay_events)

text \<open>
  C4. The same bytes, cut once behind and once inside the two bytes of U+00E9: each
  chunk is decoded on its own, so the second run forwards two replacement characters.
\<close>

theorem relay_chunking_utf8:
  "\<forall>sv cn sid.
     sent (relayRun sv cn sid Map.empty
             [bytes ''data: {\"delta\":{\"text\":\"caf'' @ [195, 169] @ bytes ''\"}}\<newline>''] Ended)
       = [Delta (JStr (js ''caf'' @ [233]))]
     \<and> sent (relayRun sv cn sid Map.empty
             [bytes ''data: {\"delta\":{\"text\":\"caf'' @ [195], [169] @ bytes ''\"}}\<newline>''] Ended)
       = [Delta (JStr (js ''caf'' @ [65533, 65533]))]"
proof (intro allI)
  fix sv :: bool and cn :: "jsstr \<Rightarrow> jsstr" and sid :: jsstr
  show "sent (relayRun sv cn sid Map.empty
             [bytes ''data: {\"delta\":{\"text\":\"caf'' @ [195, 169] @ bytes ''\"}}\<newline>''] Ended)
       = [Delta (JStr (js ''caf'' @ [233]))]
     \<and> sent (relayRun sv cn sid Map.empty
             [bytes ''data: {\"delta\":{\"text\":\"caf'' @ [195], [169] @ bytes ''\"}}\<newline>''] Ended)
       = [Delta (JStr (js ''caf'' @ [65533, 65533]))]"
    by code_simp
qed

end
